theory Spec2Isabelle
  imports Complex_Main "HOL-Library.Sublist"
begin

section \<open>Strings\<close>

text \<open>
  A Python \<open>str\<close> is a sequence of Unicode code points, so it is modelled as a list of
  natural numbers. \<open>ustr\<close> writes an ASCII literal as such a list.
\<close>

type_synonym ustring = "nat list"

definition ustr :: "string \<Rightarrow> ustring" where
  "ustr s = map of_char s"

text \<open>
  \<open>str.isspace\<close> on one code point, which is what \<open>str.strip()\<close> tests: the ASCII controls
  9 to 13 and 28 to 31, the space, and the Unicode white space U+0085, U+00A0, U+1680,
  U+2000 to U+200A, U+2028, U+2029, U+202F, U+205F and U+3000.
\<close>

definition isspace :: "nat \<Rightarrow> bool" where
  "isspace c =
     ((9 \<le> c \<and> c \<le> 13) \<or> (28 \<le> c \<and> c \<le> 32) \<or> c = 0x85 \<or> c = 0xA0 \<or> c = 0x1680
      \<or> (0x2000 \<le> c \<and> c \<le> 0x200A) \<or> c = 0x2028 \<or> c = 0x2029 \<or> c = 0x202F
      \<or> c = 0x205F \<or> c = 0x3000)"

text \<open>\<open>s.strip()\<close>: leading and trailing whitespace removed.\<close>

definition strip :: "ustring \<Rightarrow> ustring" where
  "strip s = rev (dropWhile isspace (rev (dropWhile isspace s)))"

text \<open>\<open>s.lstrip(chars)\<close>: every leading character that occurs in \<open>chars\<close> is removed.\<close>

definition lstrip :: "ustring \<Rightarrow> ustring \<Rightarrow> ustring" where
  "lstrip chars s = dropWhile (\<lambda>c. c \<in> set chars) s"

text \<open>\<open>s.replace(old, new)\<close> for a one-character \<open>old\<close>.\<close>

definition replace :: "nat \<Rightarrow> ustring \<Rightarrow> ustring \<Rightarrow> ustring" where
  "replace old new s = concat (map (\<lambda>c. if c = old then new else [c]) s)"

text \<open>
  Two builtins of the interpreter are not spelled out and are parameters of every function
  that calls them: \<open>hash\<close> on strings, which is seeded per process, and \<open>str.lower\<close>, which
  reads the case mappings of the Unicode database. Every theorem below holds for all values
  of both; where a theorem needs a fact about \<open>str.lower\<close>, the fact is a hypothesis.
\<close>

record builtins =
  hash :: "ustring \<Rightarrow> int"
  lower :: "ustring \<Rightarrow> ustring"

text \<open>
  The values the closed examples give to the parameters. \<open>ascii_lower\<close> is \<open>str.lower\<close> on
  every string whose cased characters are all ASCII, which the strings of the examples are;
  no example depends on the value of a hash, only on equal strings having equal hashes.
\<close>

definition ascii_lower :: "ustring \<Rightarrow> ustring" where
  "ascii_lower s = map (\<lambda>c. if 65 \<le> c \<and> c \<le> 90 then c + 32 else c) s"

definition ascii_builtins :: builtins where
  "ascii_builtins = \<lparr>hash = (\<lambda>t. int (length t)), lower = ascii_lower\<rparr>"

section \<open>Configuration and state\<close>

definition MAX_HISTORY :: nat where
  "MAX_HISTORY = 10"

definition SENT_MESSAGE_EXPIRY :: real where
  "SENT_MESSAGE_EXPIRY = 60"

datatype role = System | User | Assistant

datatype turn = Turn (role: role) (content: ustring)

text \<open>
  The module's globals and the local \<open>last_rowid\<close> of \<open>main\<close>, threaded explicitly.
  A correspondent is a \<^typ>\<open>ustring option\<close>: the sender column may be \<open>None\<close>.
  \<open>conversation_history\<close> is a \<open>defaultdict(list)\<close>, so a total function with value \<open>[]\<close>
  at a key never written. Times are the values of \<open>time.time()\<close>, taken as reals.

  Four fields observe what the program does and are read by no branch of it:
  \<open>api_posts\<close> (the \<open>messages\<close> array of every \<open>requests.post\<close>), \<open>osascripts\<close> (recipient and
  escaped text of every \<open>subprocess.run\<close>), \<open>inspected\<close> (the rowids in the order in which line
  345 adds them to \<open>processed_messages\<close>) and \<open>dispatched\<close> (the rowids that reach line 375,
  after which the entry goes to the command handler or to the backend).
\<close>

record state =
  conversation_history :: "ustring option \<Rightarrow> turn list"
  processed_messages :: "int set"
  sent_messages :: "int set"
  sent_messages_with_time :: "(real \<times> int) list"
  last_rowid :: int
  api_posts :: "turn list list"
  osascripts :: "(ustring option \<times> ustring) list"
  inspected :: "int list"
  dispatched :: "int list"

section \<open>Fingerprint cache\<close>

text \<open>
  \<open>B\<close> holds the builtins \<open>hash\<close> and \<open>str.lower\<close>; \<open>now\<close> is what \<open>time.time()\<close> returns
  inside the call.
\<close>

definition clean_old_sent_messages :: "real \<Rightarrow> state \<Rightarrow> state" where
  "clean_old_sent_messages current_time s =
     (let kept = filter (\<lambda>(ts, msg_hash). current_time - ts < SENT_MESSAGE_EXPIRY)
                   (sent_messages_with_time s)
      in s\<lparr>sent_messages_with_time := kept, sent_messages := set (map snd kept)\<rparr>)"

definition is_our_sent_message :: "builtins \<Rightarrow> real \<Rightarrow> ustring \<Rightarrow> state \<Rightarrow> bool \<times> state" where
  "is_our_sent_message B now message s =
     (let s' = clean_old_sent_messages now s;
          msg_hash = hash B (lower B (strip message))
      in (msg_hash \<in> sent_messages s', s'))"

definition track_sent_message :: "builtins \<Rightarrow> real \<Rightarrow> ustring \<Rightarrow> state \<Rightarrow> state" where
  "track_sent_message B now message s =
     (let msg_hash = hash B (lower B (strip message))
      in s\<lparr>sent_messages := insert msg_hash (sent_messages s),
            sent_messages_with_time := sent_messages_with_time s @ [(now, msg_hash)]\<rparr>)"

section \<open>Send channel\<close>

text \<open>What \<open>subprocess.run\<close> does: it returns, or raises \<open>TimeoutExpired\<close>, or raises otherwise.\<close>

datatype send_outcome = Completed | TimeoutExpired | SendException

text \<open>Backslash is 0x5C, the double quote 0x22, the newline 0x0A and \<open>n\<close> 0x6E.\<close>

definition escape :: "ustring \<Rightarrow> ustring" where
  "escape message =
     replace 0x0A [0x5C, 0x6E]
       (replace 0x22 [0x5C, 0x22]
         (replace 0x5C [0x5C, 0x5C] message))"

definition send_imessage ::
  "builtins \<Rightarrow> real \<Rightarrow> send_outcome \<Rightarrow> ustring option \<Rightarrow> ustring \<Rightarrow> state \<Rightarrow> bool \<times> state" where
  "send_imessage B now outcome recipient message s =
     (let s1 = track_sent_message B now message s;
          escaped_message = escape message;
          s2 = s1\<lparr>osascripts := osascripts s1 @ [(recipient, escaped_message)]\<rparr>
      in (case outcome of
            Completed \<Rightarrow> (True, s2)
          | TimeoutExpired \<Rightarrow> (False, s2)
          | SendException \<Rightarrow> (False, s2)))"

section \<open>Conversation store and backend call\<close>

text \<open>
  What \<open>requests.post\<close> and the reading of its body do. \<open>Response status body\<close> is a reply with
  that status; \<open>body\<close> is \<open>Some c\<close> when \<open>response.json()["choices"][0]["message"]["content"]\<close>
  evaluates to the ustring \<open>c\<close>, and \<open>None\<close> when evaluating it raises.
\<close>

datatype api_result = ConnectionError | Timeout | OtherException | Response nat "ustring option"

definition SYSTEM_PROMPT :: ustring where
  "SYSTEM_PROMPT = ustr ''You are a helpful AI assistant responding via iMessage. Keep responses concise and conversational. Use emojis sparingly but appropriately.''"

definition API_ERROR_REPLY :: ustring where
  "API_ERROR_REPLY = ustr ''Sorry, I couldn't process that. Please try again.''"

definition CONNECTION_ERROR_REPLY :: ustring where
  "CONNECTION_ERROR_REPLY =
     [0x26A0, 0xFE0F] @ ustr '' AI server is not running. Please start the Apple Intelligence API.''"

definition TIMEOUT_REPLY :: ustring where
  "TIMEOUT_REPLY =
     [0x23F1, 0xFE0F] @ ustr '' Response took too long. Please try again.''"

definition EXCEPTION_REPLY :: ustring where
  "EXCEPTION_REPLY = ustr ''Something went wrong. Please try again.''"

text \<open>Lines 187 to 194 of \<open>get_ai_response\<close>: the user turn is appended, then the list is cut
  to its last \<open>MAX_HISTORY * 2\<close> turns when it is longer.\<close>

definition append_user :: "ustring option \<Rightarrow> ustring \<Rightarrow> state \<Rightarrow> state" where
  "append_user sender message s =
     (let h = conversation_history s sender @ [Turn User message];
          h' = (if length h > MAX_HISTORY * 2 then drop (length h - MAX_HISTORY * 2) h else h)
      in s\<lparr>conversation_history := (conversation_history s)(sender := h')\<rparr>)"

text \<open>Lines 219 to 222: the assistant turn is appended; nothing is cut here.\<close>

definition append_assistant :: "ustring option \<Rightarrow> ustring \<Rightarrow> state \<Rightarrow> state" where
  "append_assistant sender ai_response s =
     s\<lparr>conversation_history :=
         (conversation_history s)(sender := conversation_history s sender @ [Turn Assistant ai_response])\<rparr>"

definition get_ai_response :: "api_result \<Rightarrow> ustring option \<Rightarrow> ustring \<Rightarrow> state \<Rightarrow> ustring \<times> state" where
  "get_ai_response api sender message s =
     (let s1 = append_user sender message s;
          messages = Turn System SYSTEM_PROMPT # conversation_history s1 sender;
          s2 = s1\<lparr>api_posts := api_posts s1 @ [messages]\<rparr>
      in (case api of
            Response status body \<Rightarrow>
              (if status = 200 then
                 (case body of
                    Some ai_response \<Rightarrow> (ai_response, append_assistant sender ai_response s2)
                  | None \<Rightarrow> (EXCEPTION_REPLY, s2))
               else (API_ERROR_REPLY, s2))
          | ConnectionError \<Rightarrow> (CONNECTION_ERROR_REPLY, s2)
          | Timeout \<Rightarrow> (TIMEOUT_REPLY, s2)
          | OtherException \<Rightarrow> (EXCEPTION_REPLY, s2)))"

section \<open>Contact filter\<close>

text \<open>The \<open>for allowed in ALLOWED_CONTACTS\<close> loop of lines 362 to 369, with its \<open>break\<close>.\<close>

fun match_allowed :: "builtins \<Rightarrow> ustring \<Rightarrow> ustring \<Rightarrow> ustring list \<Rightarrow> bool" where
  "match_allowed B sender_normalized sender_no_plus [] = False"
| "match_allowed B sender_normalized sender_no_plus (allowed # rest) =
     (let allowed_normalized = lower B (strip allowed);
          allowed_no_plus = lstrip (ustr ''+'') allowed_normalized
      in if sender_normalized = allowed_normalized \<or> sender_no_plus = allowed_no_plus then True
         else match_allowed B sender_normalized sender_no_plus rest)"

text \<open>Lines 357 to 373: the value of \<open>is_allowed\<close> when the list is not empty; with an empty
  list nothing is filtered. \<open>if sender\<close> is false of \<open>None\<close> and of the empty ustring.\<close>

definition is_allowed :: "builtins \<Rightarrow> ustring list \<Rightarrow> ustring option \<Rightarrow> bool" where
  "is_allowed B ALLOWED_CONTACTS sender =
     (if ALLOWED_CONTACTS \<noteq> [] then
        (let sender_normalized =
               (case sender of
                  None \<Rightarrow> []
                | Some x \<Rightarrow> if x \<noteq> [] then lower B (strip x) else []);
             sender_no_plus = lstrip (ustr ''+'') sender_normalized
         in match_allowed B sender_normalized sender_no_plus ALLOWED_CONTACTS)
      else True)"

text \<open>
  The filter as the specification words it, for a sender that is present: both sides are
  trimmed, case-folded and lose exactly one leading \<open>+\<close>, then membership is tested.
  It is compared with \<open>is_allowed\<close> below and is used by no function of the program.
\<close>

definition spec_normalize :: "builtins \<Rightarrow> ustring \<Rightarrow> ustring" where
  "spec_normalize B x =
     (case lower B (strip x) of
        [] \<Rightarrow> []
      | c # rest \<Rightarrow> if [c] = ustr ''+'' then rest else c # rest)"

definition spec_isAllowed :: "builtins \<Rightarrow> ustring \<Rightarrow> ustring list \<Rightarrow> bool" where
  "spec_isAllowed B senderId allowList =
     (spec_normalize B senderId \<in> set (map (spec_normalize B) allowList))"

section \<open>Cursor reader\<close>

text \<open>
  The message store seen through the query of \<open>get_recent_messages\<close>: one \<open>db_row\<close> for every
  row of \<open>message\<close> left-joined with \<open>handle\<close>, \<open>chat_message_join\<close> and \<open>chat\<close>, columns in
  the order of the \<open>SELECT\<close>. A left join keeps every message, so the rowids of the table
  \<open>message\<close> are those of the rows; a message in two chats has two rows.
  \<open>readable\<close> is false when the \<open>try\<close> block raises.
\<close>

record db_row =
  col_rowid :: int
  col_text :: "ustring option"
  col_is_from_me :: int
  col_date :: int
  col_handle :: "ustring option"
  col_chat_identifier :: "ustring option"

record message =
  rowid :: int
  msg_text :: ustring
  is_from_me :: int
  date :: int
  sender :: "ustring option"
  chat_id :: "ustring option"

text \<open>\<open>row[4] or row[5]\<close>: the handle when it is a non-empty string, else the chat identifier.\<close>

definition to_message :: "db_row \<Rightarrow> message" where
  "to_message row =
     \<lparr>rowid = col_rowid row,
      msg_text = (case col_text row of Some t \<Rightarrow> t | None \<Rightarrow> []),
      is_from_me = col_is_from_me row,
      date = col_date row,
      sender = (case col_handle row of
                  Some h \<Rightarrow> if h \<noteq> [] then Some h else col_chat_identifier row
                | None \<Rightarrow> col_chat_identifier row),
      chat_id = col_chat_identifier row\<rparr>"

definition selected :: "int \<Rightarrow> db_row \<Rightarrow> bool" where
  "selected since_rowid row =
     (col_rowid row > since_rowid \<and> col_text row \<noteq> None \<and> col_text row \<noteq> Some []
      \<and> col_is_from_me row = 0)"

definition get_recent_messages :: "bool \<Rightarrow> db_row list \<Rightarrow> int \<Rightarrow> message list" where
  "get_recent_messages readable db since_rowid =
     (if readable then
        map to_message (take 50 (sort_key col_rowid (filter (selected since_rowid) db)))
      else [])"

text \<open>\<open>SELECT MAX(ROWID)\<close> is \<open>NULL\<close> on an empty table; \<open>result[0] or 0\<close>.\<close>

definition get_latest_rowid :: "bool \<Rightarrow> db_row list \<Rightarrow> int" where
  "get_latest_rowid readable db =
     (if readable then
        (let result = (if db = [] then None else Some (Max (set (map col_rowid db))))
         in case result of None \<Rightarrow> 0 | Some r \<Rightarrow> if r = 0 then 0 else r)
      else 0)"

section \<open>Response orchestrator\<close>

definition CLEAR_REPLY :: ustring where
  "CLEAR_REPLY = [0x2728] @ ustr '' Conversation cleared! Starting fresh.''"

definition help_text :: ustring where
  "help_text =
     [0x1F916] @ ustr '' iMessage AI Bot Commands:'' @ [0x0A, 0x0A]
     @ ustr ''/clear - Reset conversation history'' @ [0x0A] @ ustr ''/help - Show this message''"

text \<open>What the outside world does while one entry is handled: the clock read by
  \<open>is_our_sent_message\<close>, the backend, the clock read by \<open>track_sent_message\<close>, the transport.\<close>

record env =
  now_check :: real
  api :: api_result
  now_send :: real
  transport :: send_outcome

text \<open>Lines 375 to 403 of the loop body: commands, then the chat path.\<close>

definition dispatch :: "builtins \<Rightarrow> env \<Rightarrow> message \<Rightarrow> state \<Rightarrow> state" where
  "dispatch B e msg s =
     (let s0 = s\<lparr>dispatched := dispatched s @ [rowid msg]\<rparr> in
      if lower B (strip (msg_text msg)) = ustr ''/clear'' then
        snd (send_imessage B (now_send e) (transport e) (sender msg) CLEAR_REPLY
               (s0\<lparr>conversation_history := (conversation_history s0)(sender msg := [])\<rparr>))
      else if lower B (strip (msg_text msg)) = ustr ''/help'' then
        snd (send_imessage B (now_send e) (transport e) (sender msg) help_text s0)
      else
        (let (ai_response, s1) = get_ai_response (api e) (sender msg) (msg_text msg) s0
         in snd (send_imessage B (now_send e) (transport e) (sender msg) ai_response s1)))"

text \<open>Lines 339 to 403: the body of \<open>for msg in new_messages\<close>.\<close>

definition process_message ::
  "builtins \<Rightarrow> ustring list \<Rightarrow> env \<Rightarrow> message \<Rightarrow> state \<Rightarrow> state" where
  "process_message B ALLOWED_CONTACTS e msg s =
     (if rowid msg \<in> processed_messages s then s
      else
        (let s1 = s\<lparr>processed_messages := insert (rowid msg) (processed_messages s),
                     inspected := inspected s @ [rowid msg],
                     last_rowid := max (last_rowid s) (rowid msg)\<rparr>;
             (ours, s2) = is_our_sent_message B (now_check e) (msg_text msg) s1
         in if ours then s2
            else if \<not> is_allowed B ALLOWED_CONTACTS (sender msg) then s2
            else dispatch B e msg s2))"

text \<open>The \<open>for\<close> loop over a batch; \<open>E i\<close> is the outside world at the \<open>i\<close>-th entry.\<close>

fun process_batch ::
  "builtins \<Rightarrow> ustring list \<Rightarrow> (nat \<Rightarrow> env) \<Rightarrow> nat \<Rightarrow> message list \<Rightarrow> state \<Rightarrow> state" where
  "process_batch B ALLOWED_CONTACTS E i [] s = s"
| "process_batch B ALLOWED_CONTACTS E i (msg # rest) s =
     process_batch B ALLOWED_CONTACTS E (Suc i) rest (process_message B ALLOWED_CONTACTS (E i) msg s)"

text \<open>One turn of \<open>while True\<close>: the store as it is at that moment, whether reading it works,
  and the outside world for each entry.\<close>

record cycle =
  readable :: bool
  db :: "db_row list"
  envs :: "nat \<Rightarrow> env"

definition poll_cycle :: "builtins \<Rightarrow> ustring list \<Rightarrow> cycle \<Rightarrow> state \<Rightarrow> state" where
  "poll_cycle B ALLOWED_CONTACTS c s =
     process_batch B ALLOWED_CONTACTS (envs c) 0
       (get_recent_messages (readable c) (db c) (last_rowid s)) s"

definition init_state :: "int \<Rightarrow> state" where
  "init_state r =
     \<lparr>conversation_history = (\<lambda>_. []), processed_messages = {}, sent_messages = {},
      sent_messages_with_time = [], last_rowid = r, api_posts = [], osascripts = [],
      inspected = [], dispatched = []\<rparr>"

text \<open>The loop never ends by itself; the state after any number of cycles is what an
  interrupt can find.\<close>

fun main_loop :: "builtins \<Rightarrow> ustring list \<Rightarrow> cycle list \<Rightarrow> state \<Rightarrow> state" where
  "main_loop B ALLOWED_CONTACTS [] s = s"
| "main_loop B ALLOWED_CONTACTS (c # cs) s =
     main_loop B ALLOWED_CONTACTS cs (poll_cycle B ALLOWED_CONTACTS c s)"

text \<open>\<open>main\<close> from line 328: \<open>startup_readable\<close> and \<open>startup_db\<close> are the store when
  \<open>get_latest_rowid\<close> reads it.\<close>

definition main :: "builtins \<Rightarrow> ustring list \<Rightarrow> bool \<Rightarrow> db_row list \<Rightarrow> cycle list \<Rightarrow> state" where
  "main B ALLOWED_CONTACTS startup_readable startup_db cycles =
     main_loop B ALLOWED_CONTACTS cycles (init_state (get_latest_rowid startup_readable startup_db))"

text \<open>
  \<open>check_permissions\<close> (lines 238 to 257) runs before all this. \<open>db_exists\<close> is
  \<open>MESSAGES_DB.exists()\<close>, and \<open>access\<close> is what its own connection and \<open>SELECT COUNT(*)\<close> do.
  It returns false on \<open>sqlite3.OperationalError\<close>; any other exception leaves \<open>main\<close>, which is
  the result \<open>None\<close>.
\<close>

datatype access = Opens | RaisesOperationalError | RaisesOther

definition check_permissions :: "bool \<Rightarrow> access \<Rightarrow> bool option" where
  "check_permissions db_exists a =
     (if \<not> db_exists then Some False
      else (case a of
              Opens \<Rightarrow> Some True
            | RaisesOperationalError \<Rightarrow> Some False
            | RaisesOther \<Rightarrow> None))"

text \<open>
  Lines 314 to 328 of \<open>main\<close>: the watermark the loop starts with, or \<open>None\<close> when \<open>main\<close>
  returns at line 315 or is left by an exception, so that the loop never starts.
\<close>

definition startup_rowid :: "bool \<Rightarrow> access \<Rightarrow> bool \<Rightarrow> db_row list \<Rightarrow> int option" where
  "startup_rowid db_exists a startup_readable startup_db =
     (case check_permissions db_exists a of
        Some True \<Rightarrow> Some (get_latest_rowid startup_readable startup_db)
      | Some False \<Rightarrow> None
      | None \<Rightarrow> None)"

section \<open>Send channel: the fingerprint comes first\<close>

text \<open>
  C9. \<open>send_imessage\<close> records the fingerprint of the message before it calls the transport:
  whatever the transport does, the state it leaves is the one \<open>track_sent_message\<close> made, with
  the transport call logged after it. The call returns true exactly when the transport
  completes, the fingerprint is in the cache also when it returns false, and a text with the
  same normalized form is reported as ours at any time less than \<open>SENT_MESSAGE_EXPIRY\<close>
  seconds after the send.
\<close>

theorem send_imessage_fingerprints:
  "snd (send_imessage B now outcome recipient message s) =
     (track_sent_message B now message s)
       \<lparr>osascripts := osascripts s @ [(recipient, escape message)]\<rparr>
   \<and> fst (send_imessage B now outcome recipient message s) = (outcome = Completed)
   \<and> hash B (lower B (strip message)) \<in> sent_messages (snd (send_imessage B now outcome recipient message s))
   \<and> (lower B (strip t') = lower B (strip message) \<and> d < SENT_MESSAGE_EXPIRY \<longrightarrow>
        fst (is_our_sent_message B (now + d) t'
              (snd (send_imessage B now outcome recipient message s))))"
  by (cases outcome)
     (simp_all add: send_imessage_def track_sent_message_def is_our_sent_message_def
        clean_old_sent_messages_def Let_def)

theorem send_imessage_fingerprints_witness:
  "\<not> fst (send_imessage ascii_builtins 0 TimeoutExpired (Some (ustr ''+14155551234''))
            (ustr ''Hi there!'') (init_state 0))
   \<and> fst (is_our_sent_message ascii_builtins 5 (ustr '' hi THERE!'')
         (snd (send_imessage ascii_builtins 0 TimeoutExpired (Some (ustr ''+14155551234''))
                (ustr ''Hi there!'') (init_state 0))))"
proof -
  have n: "lower ascii_builtins (strip (ustr '' hi THERE!'')) = lower ascii_builtins (strip (ustr ''Hi there!''))"
    by (simp add: ascii_builtins_def ascii_lower_def strip_def isspace_def ustr_def)
  have d: "(5::real) < SENT_MESSAGE_EXPIRY"
    by (simp add: SENT_MESSAGE_EXPIRY_def)
  note t = send_imessage_fingerprints [of ascii_builtins 0 TimeoutExpired
      "Some (ustr ''+14155551234'')" "(ustr ''Hi there!'')" "init_state 0" "(ustr '' hi THERE!'')" 5]
  from t [THEN conjunct2, THEN conjunct1]
  have a: "\<not> fst (send_imessage ascii_builtins 0 TimeoutExpired (Some (ustr ''+14155551234''))
            (ustr ''Hi there!'') (init_state 0))"
    by simp
  from t [THEN conjunct2, THEN conjunct2, THEN conjunct2] n d
  have b: "fst (is_our_sent_message ascii_builtins 5 (ustr '' hi THERE!'')
         (snd (send_imessage ascii_builtins 0 TimeoutExpired (Some (ustr ''+14155551234''))
                (ustr ''Hi there!'') (init_state 0))))"
    by simp
  from a b show ?thesis by (rule conjI)
qed

section \<open>Fingerprint cache: expiry\<close>

lemma lookup_iff:
  "fst (is_our_sent_message B now t' s) =
     (\<exists>p \<in> set (sent_messages_with_time s).
        snd p = hash B (lower B (strip t')) \<and> now - fst p < SENT_MESSAGE_EXPIRY)"
  by (force simp add: is_our_sent_message_def clean_old_sent_messages_def Let_def image_iff)

text \<open>
  C2, as the claim states it, fails: every send records a fingerprint of its own, so when the
  same text is sent at 0 and again at 30, a lookup at 61 finds the second fingerprint and
  returns true although 61 seconds have passed since the first was recorded.
\<close>

theorem fingerprint_resend_counterexample:
  "fst (is_our_sent_message ascii_builtins 61 (ustr ''Hi there!'')
          (track_sent_message ascii_builtins 30 (ustr ''Hi there!'')
            (track_sent_message ascii_builtins 0 (ustr ''Hi there!'') (init_state 0))))"
  by (simp add: lookup_iff track_sent_message_def Let_def init_state_def SENT_MESSAGE_EXPIRY_def)

text \<open>
  C2, amended. In every state of the cache, \<open>is_our_sent_message\<close> at time \<open>now\<close> returns true
  exactly when the cache holds a fingerprint with the hash of the normalized text that was
  recorded less than \<open>SENT_MESSAGE_EXPIRY\<close> seconds before \<open>now\<close>, and it keeps exactly the
  fingerprints that young; \<open>track_sent_message\<close> adds one fingerprint and removes none. So a
  fingerprint recorded at time \<open>T\<close> makes the lookup at \<open>T + \<Delta>\<close> return true for every text
  with the same normalized form when \<open>\<Delta> < SENT_MESSAGE_EXPIRY\<close>, right after the send and in
  every later state that still holds it. When
  \<open>SENT_MESSAGE_EXPIRY \<le> \<Delta>\<close> the lookup has purged that fingerprint, and it returns true
  exactly when another fingerprint with the same hash, recorded less than
  \<open>SENT_MESSAGE_EXPIRY\<close> before the lookup, is in the cache (the same text sent again, or a
  collision of \<open>hash\<close>): an expired fingerprint by itself suppresses nothing.
\<close>

theorem fingerprint_suppresses_within_expiry:
  "fst (is_our_sent_message B now u s') =
     (\<exists>p \<in> set (sent_messages_with_time s').
        snd p = hash B (lower B (strip u)) \<and> now - fst p < SENT_MESSAGE_EXPIRY)
   \<and> sent_messages_with_time (snd (is_our_sent_message B now u s')) =
       filter (\<lambda>p. now - fst p < SENT_MESSAGE_EXPIRY) (sent_messages_with_time s')
   \<and> sent_messages_with_time (track_sent_message B T t s) =
       sent_messages_with_time s @ [(T, hash B (lower B (strip t)))]
   \<and> (lower B (strip t') = lower B (strip t) \<and> \<Delta> < SENT_MESSAGE_EXPIRY \<longrightarrow>
        fst (is_our_sent_message B (T + \<Delta>) t' (track_sent_message B T t s)))
   \<and> (SENT_MESSAGE_EXPIRY \<le> \<Delta> \<longrightarrow>
        (T, hash B (lower B (strip t))) \<notin>
          set (sent_messages_with_time (snd (is_our_sent_message B (T + \<Delta>) t' s'))))
   \<and> (lower B (strip t') = lower B (strip t) \<and> SENT_MESSAGE_EXPIRY \<le> \<Delta> \<longrightarrow>
        fst (is_our_sent_message B (T + \<Delta>) t' (track_sent_message B T t s)) =
          (\<exists>p \<in> set (sent_messages_with_time s).
             snd p = hash B (lower B (strip t)) \<and> T + \<Delta> - fst p < SENT_MESSAGE_EXPIRY))
   \<and> (lower B (strip t') = lower B (strip t) \<and> \<Delta> < SENT_MESSAGE_EXPIRY
        \<and> (T, hash B (lower B (strip t))) \<in> set (sent_messages_with_time s') \<longrightarrow>
        fst (is_our_sent_message B (T + \<Delta>) t' s'))"
proof (intro conjI impI)
  show "fst (is_our_sent_message B now u s') =
     (\<exists>p \<in> set (sent_messages_with_time s').
        snd p = hash B (lower B (strip u)) \<and> now - fst p < SENT_MESSAGE_EXPIRY)"
    by (rule lookup_iff)
  show "sent_messages_with_time (snd (is_our_sent_message B now u s')) =
       filter (\<lambda>p. now - fst p < SENT_MESSAGE_EXPIRY) (sent_messages_with_time s')"
    by (simp add: is_our_sent_message_def clean_old_sent_messages_def Let_def split_def)
  show "sent_messages_with_time (track_sent_message B T t s) =
       sent_messages_with_time s @ [(T, hash B (lower B (strip t)))]"
    by (simp add: track_sent_message_def Let_def)
next
  assume "lower B (strip t') = lower B (strip t) \<and> \<Delta> < SENT_MESSAGE_EXPIRY"
  then show "fst (is_our_sent_message B (T + \<Delta>) t' (track_sent_message B T t s))"
    by (simp add: lookup_iff track_sent_message_def Let_def)
next
  assume "SENT_MESSAGE_EXPIRY \<le> \<Delta>"
  then show "(T, hash B (lower B (strip t))) \<notin>
          set (sent_messages_with_time (snd (is_our_sent_message B (T + \<Delta>) t' s')))"
    by (simp add: is_our_sent_message_def clean_old_sent_messages_def Let_def)
next
  assume "lower B (strip t') = lower B (strip t) \<and> SENT_MESSAGE_EXPIRY \<le> \<Delta>"
  then show "fst (is_our_sent_message B (T + \<Delta>) t' (track_sent_message B T t s)) =
          (\<exists>p \<in> set (sent_messages_with_time s).
             snd p = hash B (lower B (strip t)) \<and> T + \<Delta> - fst p < SENT_MESSAGE_EXPIRY)"
    by (auto simp add: lookup_iff track_sent_message_def Let_def)
next
  assume "lower B (strip t') = lower B (strip t) \<and> \<Delta> < SENT_MESSAGE_EXPIRY
        \<and> (T, hash B (lower B (strip t))) \<in> set (sent_messages_with_time s')"
  then show "fst (is_our_sent_message B (T + \<Delta>) t' s')"
    by (force simp add: lookup_iff)
qed

theorem fingerprint_suppresses_within_expiry_witness:
  "fst (is_our_sent_message ascii_builtins 5 (ustr ''hi there! '')
          (track_sent_message ascii_builtins 0 (ustr ''Hi there!'') (init_state 0)))
   \<and> \<not> fst (is_our_sent_message ascii_builtins 65 (ustr ''hi there! '')
          (track_sent_message ascii_builtins 0 (ustr ''Hi there!'') (init_state 0)))
   \<and> sent_messages_with_time
         (snd (is_our_sent_message ascii_builtins 65 (ustr ''hi there! '')
                (track_sent_message ascii_builtins 0 (ustr ''Hi there!'') (init_state 0)))) = []
   \<and> fst (is_our_sent_message ascii_builtins 59 (ustr ''hi there! '')
          (track_sent_message ascii_builtins 30 (ustr ''other'')
            (track_sent_message ascii_builtins 0 (ustr ''Hi there!'') (init_state 0))))"
proof -
  have n: "lower ascii_builtins (strip (ustr ''hi there! ''))
           = lower ascii_builtins (strip (ustr ''Hi there!''))"
    by (simp add: ascii_builtins_def ascii_lower_def strip_def isspace_def ustr_def)
  have e: "sent_messages_with_time (init_state 0) = []"
    by (simp add: init_state_def)
  have d5: "(5::real) < SENT_MESSAGE_EXPIRY" and d65: "SENT_MESSAGE_EXPIRY \<le> (65::real)"
    by (simp_all add: SENT_MESSAGE_EXPIRY_def)
  note t5 = fingerprint_suppresses_within_expiry
    [of ascii_builtins _ _ _ 0 "ustr ''Hi there!''" "init_state 0" "ustr ''hi there! ''" 5]
  note t65 = fingerprint_suppresses_within_expiry
    [of ascii_builtins _ _ _ 0 "ustr ''Hi there!''" "init_state 0" "ustr ''hi there! ''" 65]
  from t5 [THEN conjunct2, THEN conjunct2, THEN conjunct2, THEN conjunct1, rule_format, OF conjI, OF n d5]
  have a: "fst (is_our_sent_message ascii_builtins 5 (ustr ''hi there! '')
          (track_sent_message ascii_builtins 0 (ustr ''Hi there!'') (init_state 0)))"
    by simp
  from t65 [THEN conjunct2, THEN conjunct2, THEN conjunct2, THEN conjunct2, THEN conjunct2,
            THEN conjunct1, rule_format, OF conjI, OF n d65]
  have b: "\<not> fst (is_our_sent_message ascii_builtins 65 (ustr ''hi there! '')
          (track_sent_message ascii_builtins 0 (ustr ''Hi there!'') (init_state 0)))"
    by (simp add: e)
  let ?s1 = "track_sent_message ascii_builtins 0 (ustr ''Hi there!'') (init_state 0)"
  let ?s2 = "track_sent_message ascii_builtins 30 (ustr ''other'') ?s1"
  note u = fingerprint_suppresses_within_expiry
    [of ascii_builtins 65 "ustr ''hi there! ''" ?s1 0 "ustr ''Hi there!''" "init_state 0"
        "ustr ''hi there! ''" 65]
  from u [THEN conjunct2, THEN conjunct2, THEN conjunct2, THEN conjunct2, THEN conjunct1,
          rule_format, OF d65]
       u [THEN conjunct2, THEN conjunct1] u [THEN conjunct2, THEN conjunct2, THEN conjunct1]
  have c: "sent_messages_with_time
         (snd (is_our_sent_message ascii_builtins 65 (ustr ''hi there! '') ?s1)) = []"
    by (simp add: e SENT_MESSAGE_EXPIRY_def)
  have d59: "(59::real) < SENT_MESSAGE_EXPIRY"
    by (simp add: SENT_MESSAGE_EXPIRY_def)
  have m: "(0, hash ascii_builtins (lower ascii_builtins (strip (ustr ''Hi there!''))))
             \<in> set (sent_messages_with_time ?s2)"
    by (simp add: track_sent_message_def Let_def)
  note v = fingerprint_suppresses_within_expiry
    [of ascii_builtins _ _ ?s2 0 "ustr ''Hi there!''" _ "ustr ''hi there! ''" 59]
  from v [THEN conjunct2, THEN conjunct2, THEN conjunct2, THEN conjunct2, THEN conjunct2,
          THEN conjunct2, rule_format, OF conjI, OF n, OF conjI, OF d59 m]
  have d: "fst (is_our_sent_message ascii_builtins 59 (ustr ''hi there! '') ?s2)"
    by simp
  from a b c d show ?thesis by (intro conjI)
qed

section \<open>Conversation store: the cap on the history\<close>

lemma history_send_imessage:
  "conversation_history (snd (send_imessage B now outcome recipient message s)) = conversation_history s"
  by (cases outcome) (simp_all add: send_imessage_def track_sent_message_def Let_def)

lemma cut_length: "length (if length h > n then drop (length h - n) h else h) \<le> n"
  by simp

lemma cut_suffix: "suffix (if length h > n then drop (length h - n) h else h) h"
  by (simp add: suffix_drop)

lemma history_append_user:
  "conversation_history (append_user who message s) who =
     (if length (conversation_history s who @ [Turn User message]) > MAX_HISTORY * 2
      then drop (length (conversation_history s who @ [Turn User message]) - MAX_HISTORY * 2)
             (conversation_history s who @ [Turn User message])
      else conversation_history s who @ [Turn User message])"
  by (simp add: append_user_def Let_def)

lemma length_append_user:
  "length (conversation_history (append_user who message s) who) \<le> 2 * MAX_HISTORY"
  unfolding history_append_user mult.commute [of 2] by (rule cut_length)

lemma suffix_append_user:
  "suffix (conversation_history (append_user who message s) who)
          (conversation_history s who @ [Turn User message])"
  unfolding history_append_user by (rule cut_suffix)

lemma history_get_ai_response:
  "conversation_history (snd (get_ai_response res who message s)) who =
     conversation_history (append_user who message s) who @
       (case res of
          Response status (Some r) \<Rightarrow> if status = 200 then [Turn Assistant r] else []
        | _ \<Rightarrow> [])"
  by (simp add: get_ai_response_def append_assistant_def Let_def
        split: api_result.split option.split)

lemma length_get_ai_response_ok:
  "length (conversation_history (snd (get_ai_response (Response 200 (Some r)) who message s)) who) =
     Suc (min (2 * MAX_HISTORY) (Suc (length (conversation_history s who))))"
  unfolding history_get_ai_response history_append_user by (simp add: min_def MAX_HISTORY_def)

text \<open>
  C1, as the claim states it, fails: the assistant turn is appended after the cut, and nothing
  is cut after it. Eleven answered messages from one correspondent, starting from the empty
  history, leave \<open>2 * MAX_HISTORY + 1\<close> turns.
\<close>

theorem history_cap_counterexample:
  "2 * MAX_HISTORY <
     length (conversation_history
               (((\<lambda>s. snd (get_ai_response (Response 200 (Some (ustr ''ok''))) (Some (ustr ''+14155551234''))
                             (ustr ''hi'') s)) ^^ 11)
                  (init_state 0))
               (Some (ustr ''+14155551234'')))"
proof -
  have e: "(11::nat) = Suc (Suc (Suc (Suc (Suc (Suc (Suc (Suc (Suc (Suc (Suc 0))))))))))"
    by simp
  have "conversation_history (init_state 0) (Some (ustr ''+14155551234'')) = []"
    by (simp add: init_state_def)
  then show ?thesis
    by (subst e) (simp add: length_get_ai_response_ok MAX_HISTORY_def)
qed

text \<open>
  C1, amended. After the user-turn append of \<open>get_ai_response\<close> the history of the
  correspondent has at most \<open>2 * MAX_HISTORY\<close> turns, and it is a suffix, in order, of the
  old history followed by the new turn (the oldest turns are the ones dropped). The history
  after the whole call extends that one and has at most \<open>2 * MAX_HISTORY + 1\<close> turns. Handling
  an inbound \<open>/clear\<close> leaves the correspondent's history empty.
\<close>

theorem history_bounded:
  "length (conversation_history (append_user who message s) who) \<le> 2 * MAX_HISTORY
   \<and> suffix (conversation_history (append_user who message s) who)
             (conversation_history s who @ [Turn User message])
   \<and> prefix (conversation_history (append_user who message s) who)
             (conversation_history (snd (get_ai_response res who message s)) who)
   \<and> length (conversation_history (snd (get_ai_response res who message s)) who)
         \<le> 2 * MAX_HISTORY + 1
   \<and> (lower B (strip (msg_text msg)) = (ustr ''/clear'') \<longrightarrow>
         conversation_history (dispatch B e msg s') (sender msg) = [])"
proof (intro conjI impI)
  show "length (conversation_history (append_user who message s) who) \<le> 2 * MAX_HISTORY"
    by (rule length_append_user)
  show "suffix (conversation_history (append_user who message s) who)
             (conversation_history s who @ [Turn User message])"
    by (rule suffix_append_user)
  show "prefix (conversation_history (append_user who message s) who)
             (conversation_history (snd (get_ai_response res who message s)) who)"
    by (simp add: history_get_ai_response)
  have "length (conversation_history (snd (get_ai_response res who message s)) who)
          \<le> length (conversation_history (append_user who message s) who) + 1"
    by (simp add: history_get_ai_response split: api_result.split option.split)
  with length_append_user [of who message s]
  show "length (conversation_history (snd (get_ai_response res who message s)) who)
         \<le> 2 * MAX_HISTORY + 1"
    by linarith
next
  assume "lower B (strip (msg_text msg)) = (ustr ''/clear'')"
  then show "conversation_history (dispatch B e msg s') (sender msg) = []"
    by (simp add: dispatch_def Let_def history_send_imessage)
qed

theorem history_bounded_witness:
  "conversation_history
     (dispatch ascii_builtins
        \<lparr>now_check = 0, api = Timeout, now_send = 0, transport = Completed\<rparr>
        \<lparr>rowid = 2, msg_text = (ustr '' /Clear''), is_from_me = 0, date = 0,
         sender = Some (ustr ''+14155551234''), chat_id = None\<rparr>
        (snd (get_ai_response (Response 200 (Some (ustr ''ok''))) (Some (ustr ''+14155551234'')) (ustr ''hi'')
               (init_state 0))))
     (Some (ustr ''+14155551234'')) = []"
proof -
  have n: "lower ascii_builtins (strip (msg_text \<lparr>rowid = 2, msg_text = (ustr '' /Clear''), is_from_me = 0, date = 0,
         sender = Some (ustr ''+14155551234''), chat_id = None\<rparr>)) = (ustr ''/clear'')"
    by (simp add: ascii_builtins_def ascii_lower_def strip_def isspace_def ustr_def)
  from history_bounded [THEN conjunct2, THEN conjunct2, THEN conjunct2, THEN conjunct2, rule_format, OF n]
  show ?thesis
    by simp
qed

section \<open>Contact filter: normalization\<close>

lemma isspace_plus: "\<not> isspace 43"
  by (simp add: isspace_def)

lemma ustr_plus: "ustr ''+'' = [43]"
  by (simp add: ustr_def)

lemma strip_plus:
  assumes "dropWhile isspace x = x"
  shows "strip (43 # x) = 43 # strip x"
proof -
  have "strip (43 # x) = rev (dropWhile isspace (rev x @ [43]))"
    by (simp add: strip_def isspace_plus)
  also have "\<dots> = 43 # rev (dropWhile isspace (rev x))"
    by (simp add: dropWhile_append3 isspace_plus)
  also have "rev (dropWhile isspace (rev x)) = strip x"
    by (simp add: strip_def assms)
  finally show ?thesis .
qed

lemma strip_Nil: "strip [] = []"
  by (simp add: strip_def)

lemma lstrip_plus_Cons: "lstrip [43] (43 # y) = lstrip [43] y"
  by (simp add: lstrip_def)

lemma lstrip_plus_Nil: "lstrip [43] [] = []"
  by (simp add: lstrip_def)

lemma match_allowed_iff:
  "match_allowed B sn (lstrip (ustr ''+'') sn) allowed =
     (lstrip (ustr ''+'') sn \<in> set (map (\<lambda>a. lstrip (ustr ''+'') (lower B (strip a))) allowed))"
  by (induction allowed) (auto simp add: Let_def)

lemma is_allowed_iff:
  "is_allowed B allowed who =
     (allowed = [] \<or>
      lstrip (ustr ''+'')
        (case who of None \<Rightarrow> [] | Some x \<Rightarrow> if x \<noteq> [] then lower B (strip x) else [])
        \<in> set (map (\<lambda>a. lstrip (ustr ''+'') (lower B (strip a))) allowed))"
  unfolding is_allowed_def Let_def match_allowed_iff by auto

text \<open>
  C5, as the claim states it, fails: \<open>lstrip('+')\<close> removes every leading \<open>+\<close>, not exactly
  one. An allow-list entry typed with two \<open>+\<close> matches the sender with one, which the filter
  of the claim rejects.
\<close>

theorem contact_filter_counterexample:
  "is_allowed ascii_builtins [ustr ''++14155551234''] (Some (ustr ''+14155551234''))
   \<and> \<not> spec_isAllowed ascii_builtins (ustr ''+14155551234'') [ustr ''++14155551234'']"
  by (simp add: is_allowed_def spec_isAllowed_def spec_normalize_def lstrip_def
        ascii_builtins_def ascii_lower_def strip_def isspace_def ustr_def)

text \<open>
  C5, amended. With a non-empty allow-list the filter accepts a sender exactly when its
  trimmed, case-folded form without any of its leading \<open>+\<close> characters is among the forms of
  the allow-list entries normalized in the same way (an absent or empty sender counts as the
  empty string). It accepts every \<open>x\<close> against the allow-list \<open>[x]\<close>, and for every \<open>x\<close> that
  does not begin with whitespace it accepts \<open>+x\<close> against \<open>[x]\<close> and \<open>x\<close> against \<open>[+x]\<close>. The two
  facts about \<open>str.lower\<close> that this uses are hypotheses: it maps the empty string to itself
  and it leaves a leading \<open>+\<close> where it is.
\<close>

theorem is_allowed_normalizes:
  "is_allowed B allowed who =
     (allowed = [] \<or>
      lstrip (ustr ''+'')
        (case who of None \<Rightarrow> [] | Some x \<Rightarrow> if x \<noteq> [] then lower B (strip x) else [])
        \<in> set (map (\<lambda>a. lstrip (ustr ''+'') (lower B (strip a))) allowed))
   \<and> (x \<noteq> [] \<or> lower B [] = [] \<longrightarrow> is_allowed B [x] (Some x))
   \<and> (dropWhile isspace x = x \<and> lower B [] = []
        \<and> (\<forall>y. lower B (ustr ''+'' @ y) = ustr ''+'' @ lower B y) \<longrightarrow>
        is_allowed B [x] (Some (ustr ''+'' @ x)) \<and> is_allowed B [ustr ''+'' @ x] (Some x))"
proof (intro conjI impI)
  show "is_allowed B allowed who =
     (allowed = [] \<or>
      lstrip (ustr ''+'')
        (case who of None \<Rightarrow> [] | Some x \<Rightarrow> if x \<noteq> [] then lower B (strip x) else [])
        \<in> set (map (\<lambda>a. lstrip (ustr ''+'') (lower B (strip a))) allowed))"
    by (rule is_allowed_iff)
next
  assume "x \<noteq> [] \<or> lower B [] = []"
  then show "is_allowed B [x] (Some x)"
    by (auto simp add: is_allowed_iff strip_Nil)
next
  assume h: "dropWhile isspace x = x \<and> lower B [] = []
        \<and> (\<forall>y. lower B (ustr ''+'' @ y) = ustr ''+'' @ lower B y)"
  then have w: "dropWhile isspace x = x" and e: "lower B [] = []"
    and p: "\<And>y. lower B (43 # y) = 43 # lower B y"
    by (simp_all add: ustr_plus)
  show "is_allowed B [x] (Some (ustr ''+'' @ x))"
    by (simp add: is_allowed_iff ustr_plus strip_plus [OF w] p lstrip_plus_Cons)
  show "is_allowed B [ustr ''+'' @ x] (Some x)"
    by (simp add: is_allowed_iff ustr_plus strip_plus [OF w] p e lstrip_plus_Cons lstrip_plus_Nil
          strip_Nil)
qed

theorem is_allowed_normalizes_witness:
  "is_allowed ascii_builtins [ustr ''14155551234''] (Some (ustr ''+14155551234''))
   \<and> is_allowed ascii_builtins [ustr ''+14155551234''] (Some (ustr ''14155551234''))
   \<and> is_allowed ascii_builtins [ustr ''Friend@iCloud.com''] (Some (ustr ''Friend@iCloud.com''))"
proof -
  have h: "dropWhile isspace (ustr ''14155551234'') = ustr ''14155551234''
        \<and> lower ascii_builtins [] = []
        \<and> (\<forall>y. lower ascii_builtins (ustr ''+'' @ y) = ustr ''+'' @ lower ascii_builtins y)"
    by (simp add: isspace_def ustr_def ascii_builtins_def ascii_lower_def)
  have u: "ustr ''+'' @ ustr ''14155551234'' = ustr ''+14155551234''"
    by (simp add: ustr_def)
  have r: "ustr ''Friend@iCloud.com'' \<noteq> [] \<or> lower ascii_builtins [] = []"
    by (simp add: ustr_def)
  from is_allowed_normalizes [THEN conjunct2, THEN conjunct2, rule_format, OF h]
       is_allowed_normalizes [THEN conjunct2, THEN conjunct1, rule_format, OF r]
  show ?thesis
    unfolding u by simp
qed

text \<open>
  C6, as the claim states it, fails: an absent or empty sender is normalized to the empty
  string and compared like any other, so an allow-list entry that normalizes to the empty
  string (such as \<open>+\<close>, or the no-break space U+00A0 alone) lets it through.
\<close>

theorem absent_sender_counterexample:
  "is_allowed ascii_builtins [ustr ''+''] None
   \<and> is_allowed ascii_builtins [ustr ''+''] (Some [])
   \<and> is_allowed ascii_builtins [[0xA0]] None"
  by (simp add: is_allowed_def lstrip_def ascii_builtins_def ascii_lower_def strip_def isspace_def
        ustr_def)

text \<open>
  C6, amended. With a non-empty allow-list, a message whose sender is absent or empty is
  accepted exactly when some entry of the allow-list is empty once trimmed, case-folded and
  stripped of its leading \<open>+\<close> characters; when no entry is, the message is rejected.
\<close>

theorem absent_sender_rejected:
  assumes "allowed \<noteq> []" and "who = None \<or> who = Some []"
  shows "is_allowed B allowed who =
           (\<exists>a \<in> set allowed. lstrip (ustr ''+'') (lower B (strip a)) = [])"
proof -
  have e: "lstrip (ustr ''+'') [] = []"
    by (simp add: lstrip_def)
  have m: "match_allowed B [] [] allowed =
             ([] \<in> set (map (\<lambda>a. lstrip (ustr ''+'') (lower B (strip a))) allowed))"
    using match_allowed_iff [of B "[]" allowed] by (simp only: e)
  from assms have "is_allowed B allowed who = match_allowed B [] [] allowed"
    by (auto simp add: is_allowed_def Let_def e)
  also have "\<dots> = (\<exists>a \<in> set allowed. lstrip (ustr ''+'') (lower B (strip a)) = [])"
    unfolding m by (auto simp add: image_iff eq_commute [of "[]"])
  finally show ?thesis .
qed

theorem absent_sender_rejected_witness:
  "\<not> is_allowed ascii_builtins [ustr ''+14155551234'', ustr ''friend@icloud.com''] None"
proof -
  have a: "lstrip (ustr ''+'') (lower ascii_builtins (strip (ustr ''+14155551234''))) \<noteq> []"
    by (simp add: lstrip_def ascii_builtins_def ascii_lower_def strip_def isspace_def ustr_def)
  have b: "lstrip (ustr ''+'') (lower ascii_builtins (strip (ustr ''friend@icloud.com''))) \<noteq> []"
    by (simp add: lstrip_def ascii_builtins_def ascii_lower_def strip_def isspace_def ustr_def)
  have "is_allowed ascii_builtins [ustr ''+14155551234'', ustr ''friend@icloud.com''] None =
          (\<exists>a \<in> set [ustr ''+14155551234'', ustr ''friend@icloud.com''].
              lstrip (ustr ''+'') (lower ascii_builtins (strip a)) = [])"
    by (rule absent_sender_rejected) simp_all
  then show ?thesis
    by (simp add: a b)
qed

section \<open>Command dispatch\<close>

lemma send_imessage_state:
  "snd (send_imessage B now outcome recipient message s) =
     s\<lparr>sent_messages := insert (hash B (lower B (strip message))) (sent_messages s),
       sent_messages_with_time := sent_messages_with_time s @ [(now, hash B (lower B (strip message)))],
       osascripts := osascripts s @ [(recipient, escape message)]\<rparr>"
  by (cases outcome) (simp_all add: send_imessage_def track_sent_message_def Let_def)


lemma get_ai_response_frame:
  "osascripts (snd (get_ai_response res who message s)) = osascripts s"
  "sent_messages (snd (get_ai_response res who message s)) = sent_messages s"
  "sent_messages_with_time (snd (get_ai_response res who message s)) = sent_messages_with_time s"
  "processed_messages (snd (get_ai_response res who message s)) = processed_messages s"
  "inspected (snd (get_ai_response res who message s)) = inspected s"
  "dispatched (snd (get_ai_response res who message s)) = dispatched s"
  "last_rowid (snd (get_ai_response res who message s)) = last_rowid s"
  by (simp_all add: get_ai_response_def append_user_def append_assistant_def Let_def
        split: api_result.split option.split)

lemma get_ai_response_posts:
  "api_posts (snd (get_ai_response res who message s)) =
     api_posts s @ [Turn System SYSTEM_PROMPT # conversation_history (append_user who message s) who]"
  by (simp add: get_ai_response_def append_user_def append_assistant_def Let_def
        split: api_result.split option.split)





section \<open>Conversation store: what a call records\<close>

lemma history_append_user_drop:
  "conversation_history (append_user who message s) who =
     drop (Suc (length (conversation_history s who)) - 2 * MAX_HISTORY)
       (conversation_history s who @ [Turn User message])"
  by (simp add: append_user_def Let_def MAX_HISTORY_def)

lemma history_get_ai_response_all:
  "conversation_history (snd (get_ai_response res who message s)) =
     (conversation_history s)
       (who := conversation_history (append_user who message s) who @
               (case res of
                  Response status (Some r) \<Rightarrow> if status = 200 then [Turn Assistant r] else []
                | _ \<Rightarrow> []))"
  by (simp add: get_ai_response_def append_assistant_def append_user_def Let_def
        split: api_result.split option.split)

text \<open>
  C10, amended. \<open>get_ai_response\<close> appends the user turn and cuts the history to its last
  \<open>2 * MAX_HISTORY\<close> turns before the request, which carries that history; the assistant turn
  is appended exactly when the status is 200 and the reply text can be read from the body;
  no other correspondent's history changes. After a failed call the history is the old one
  with the user turn, cut to the last \<open>2 * MAX_HISTORY\<close> turns: the old history plus exactly
  one turn when it had fewer than \<open>2 * MAX_HISTORY\<close> turns.
\<close>

theorem get_ai_response_history:
  "conversation_history (snd (get_ai_response res who message s)) =
     (conversation_history s)
       (who := drop (Suc (length (conversation_history s who)) - 2 * MAX_HISTORY)
                 (conversation_history s who @ [Turn User message]) @
               (case res of
                  Response status (Some r) \<Rightarrow> if status = 200 then [Turn Assistant r] else []
                | _ \<Rightarrow> []))
   \<and> api_posts (snd (get_ai_response res who message s)) =
       api_posts s @ [Turn System SYSTEM_PROMPT #
                        drop (Suc (length (conversation_history s who)) - 2 * MAX_HISTORY)
                          (conversation_history s who @ [Turn User message])]
   \<and> ((\<forall>r. res \<noteq> Response 200 (Some r)) \<and> length (conversation_history s who) < 2 * MAX_HISTORY \<longrightarrow>
        conversation_history (snd (get_ai_response res who message s)) who =
          conversation_history s who @ [Turn User message])"
proof (intro conjI impI)
  show a: "conversation_history (snd (get_ai_response res who message s)) =
     (conversation_history s)
       (who := drop (Suc (length (conversation_history s who)) - 2 * MAX_HISTORY)
                 (conversation_history s who @ [Turn User message]) @
               (case res of
                  Response status (Some r) \<Rightarrow> if status = 200 then [Turn Assistant r] else []
                | _ \<Rightarrow> []))"
    unfolding history_get_ai_response_all history_append_user_drop ..
  show "api_posts (snd (get_ai_response res who message s)) =
       api_posts s @ [Turn System SYSTEM_PROMPT #
                        drop (Suc (length (conversation_history s who)) - 2 * MAX_HISTORY)
                          (conversation_history s who @ [Turn User message])]"
    unfolding get_ai_response_posts history_append_user_drop ..
  assume f: "(\<forall>r. res \<noteq> Response 200 (Some r)) \<and> length (conversation_history s who) < 2 * MAX_HISTORY"
  then have "(case res of
                  Response status (Some r) \<Rightarrow> if status = 200 then [Turn Assistant r] else []
                | _ \<Rightarrow> []) = ([] :: turn list)"
    by (auto split: api_result.split option.split)
  with f show "conversation_history (snd (get_ai_response res who message s)) who =
          conversation_history s who @ [Turn User message]"
    unfolding a by simp
qed

theorem get_ai_response_history_witness:
  "conversation_history
     (snd (get_ai_response (Response 500 None) (Some (ustr ''+14155551234'')) (ustr ''hello'') (init_state 0)))
     (Some (ustr ''+14155551234'')) = [Turn User (ustr ''hello'')]"
proof -
  have f: "(\<forall>r. Response 500 None \<noteq> Response 200 (Some r))
           \<and> length (conversation_history (init_state 0) (Some (ustr ''+14155551234''))) < 2 * MAX_HISTORY"
    by (simp add: init_state_def MAX_HISTORY_def)
  have h: "conversation_history (init_state 0) (Some (ustr ''+14155551234'')) = []"
    by (simp add: init_state_def)
  from get_ai_response_history [THEN conjunct2, THEN conjunct2, rule_format, OF f]
  show ?thesis
    by (simp add: h)
qed

text \<open>
  C10, as the claim states it, fails twice. A reply with status 200 whose body cannot be
  read appends no assistant turn. And a failed call on a history that is at the cap does not
  leave the old history plus one turn: the oldest turns are dropped.
\<close>

theorem get_ai_response_history_counterexample:
  "conversation_history
     (snd (get_ai_response (Response 200 None) (Some (ustr ''+14155551234'')) (ustr ''hello'') (init_state 0)))
     (Some (ustr ''+14155551234'')) = [Turn User (ustr ''hello'')]
   \<and> conversation_history
       (snd (get_ai_response Timeout (Some (ustr ''+14155551234'')) (ustr ''hello'')
              (((\<lambda>s. snd (get_ai_response (Response 200 (Some (ustr ''ok''))) (Some (ustr ''+14155551234''))
                             (ustr ''hi'') s)) ^^ 10) (init_state 0))))
       (Some (ustr ''+14155551234''))
     \<noteq> conversation_history
         (((\<lambda>s. snd (get_ai_response (Response 200 (Some (ustr ''ok''))) (Some (ustr ''+14155551234''))
                             (ustr ''hi'') s)) ^^ 10) (init_state 0))
         (Some (ustr ''+14155551234'')) @ [Turn User (ustr ''hello'')]"
proof
  have h: "conversation_history (init_state 0) (Some (ustr ''+14155551234'')) = []"
    by (simp add: init_state_def)
  show "conversation_history
     (snd (get_ai_response (Response 200 None) (Some (ustr ''+14155551234'')) (ustr ''hello'') (init_state 0)))
     (Some (ustr ''+14155551234'')) = [Turn User (ustr ''hello'')]"
    unfolding history_get_ai_response history_append_user_drop by (simp add: h MAX_HISTORY_def)
  let ?s = "((\<lambda>s. snd (get_ai_response (Response 200 (Some (ustr ''ok''))) (Some (ustr ''+14155551234''))
                             (ustr ''hi'') s)) ^^ 10) (init_state 0)"
  have e: "(10::nat) = Suc (Suc (Suc (Suc (Suc (Suc (Suc (Suc (Suc (Suc 0)))))))))"
    by simp
  have l: "length (conversation_history ?s (Some (ustr ''+14155551234''))) = 20"
    using h by (subst e) (simp add: length_get_ai_response_ok MAX_HISTORY_def)
  have l1: "length (conversation_history
       (snd (get_ai_response Timeout (Some (ustr ''+14155551234'')) (ustr ''hello'') ?s)) (Some (ustr ''+14155551234''))) = 20"
    unfolding history_get_ai_response history_append_user_drop by (simp add: l MAX_HISTORY_def)
  have l2: "length (conversation_history ?s (Some (ustr ''+14155551234'')) @ [Turn User (ustr ''hello'')]) = 21"
    by (simp add: l)
  show "conversation_history
       (snd (get_ai_response Timeout (Some (ustr ''+14155551234'')) (ustr ''hello'') ?s)) (Some (ustr ''+14155551234''))
     \<noteq> conversation_history ?s (Some (ustr ''+14155551234'')) @ [Turn User (ustr ''hello'')]"
  proof
    assume "conversation_history
       (snd (get_ai_response Timeout (Some (ustr ''+14155551234'')) (ustr ''hello'') ?s)) (Some (ustr ''+14155551234''))
     = conversation_history ?s (Some (ustr ''+14155551234'')) @ [Turn User (ustr ''hello'')]"
    then have "length (conversation_history
       (snd (get_ai_response Timeout (Some (ustr ''+14155551234'')) (ustr ''hello'') ?s)) (Some (ustr ''+14155551234'')))
     = length (conversation_history ?s (Some (ustr ''+14155551234'')) @ [Turn User (ustr ''hello'')])"
      by (rule arg_cong)
    then show False
      unfolding l1 l2 by simp
  qed
qed

section \<open>Orchestrator: every entry is dispatched at most once\<close>

lemma is_our_sent_message_frame:
  "processed_messages (snd (is_our_sent_message B now t s)) = processed_messages s"
  "inspected (snd (is_our_sent_message B now t s)) = inspected s"
  "dispatched (snd (is_our_sent_message B now t s)) = dispatched s"
  "last_rowid (snd (is_our_sent_message B now t s)) = last_rowid s"
  by (simp_all add: is_our_sent_message_def clean_old_sent_messages_def Let_def)

lemma dispatch_frame:
  "processed_messages (dispatch B e msg s) = processed_messages s"
  "inspected (dispatch B e msg s) = inspected s"
  "last_rowid (dispatch B e msg s) = last_rowid s"
  "dispatched (dispatch B e msg s) = dispatched s @ [rowid msg]"
  by (simp_all add: dispatch_def Let_def split_beta send_imessage_state get_ai_response_frame)

lemma process_message_seen:
  "rowid msg \<in> processed_messages s \<Longrightarrow> process_message B A e msg s = s"
  by (simp add: process_message_def)

lemma process_message_fresh:
  assumes "rowid msg \<notin> processed_messages s"
  shows "processed_messages (process_message B A e msg s) = insert (rowid msg) (processed_messages s)"
    and "inspected (process_message B A e msg s) = inspected s @ [rowid msg]"
    and "last_rowid (process_message B A e msg s) = max (last_rowid s) (rowid msg)"
    and "dispatched (process_message B A e msg s) = dispatched s
         \<or> dispatched (process_message B A e msg s) = dispatched s @ [rowid msg]"
  using assms
  by (simp_all add: process_message_def Let_def split_beta is_our_sent_message_frame dispatch_frame)

lemma process_message_dispatched:
  assumes "distinct (dispatched s)" and "set (dispatched s) \<subseteq> processed_messages s"
  shows "distinct (dispatched (process_message B A e msg s))
       \<and> set (dispatched (process_message B A e msg s)) \<subseteq> processed_messages (process_message B A e msg s)"
proof (cases "rowid msg \<in> processed_messages s")
  case True
  with assms show ?thesis
    by (simp add: process_message_seen)
next
  case False
  with assms have "rowid msg \<notin> set (dispatched s)"
    by auto
  with assms process_message_fresh(4) [OF False, of B A e] show ?thesis
    unfolding process_message_fresh(1) [OF False] by auto
qed

lemma process_batch_dispatched:
  "distinct (dispatched s) \<Longrightarrow> set (dispatched s) \<subseteq> processed_messages s \<Longrightarrow>
   distinct (dispatched (process_batch B A E i ms s))
   \<and> set (dispatched (process_batch B A E i ms s)) \<subseteq> processed_messages (process_batch B A E i ms s)"
proof (induction ms arbitrary: s i)
  case Nil
  then show ?case by simp
next
  case (Cons m ms)
  from process_message_dispatched [OF Cons.prems, of B A "E i" m]
  show ?case
    by (simp add: Cons.IH)
qed

lemma main_loop_dispatched:
  "distinct (dispatched s) \<Longrightarrow> set (dispatched s) \<subseteq> processed_messages s \<Longrightarrow>
   distinct (dispatched (main_loop B A cs s))
   \<and> set (dispatched (main_loop B A cs s)) \<subseteq> processed_messages (main_loop B A cs s)"
proof (induction cs arbitrary: s)
  case Nil
  then show ?case by simp
next
  case (Cons c cs)
  from process_batch_dispatched [OF Cons.prems]
  show ?case
    by (simp add: Cons.IH poll_cycle_def)
qed

lemma main_dispatched:
  "distinct (dispatched (main B A sr sdb cycles))
   \<and> set (dispatched (main B A sr sdb cycles)) \<subseteq> processed_messages (main B A sr sdb cycles)"
  unfolding main_def by (rule main_loop_dispatched) (simp_all add: init_state_def)

lemma process_message_marks:
  "rowid msg \<in> processed_messages (process_message B A e msg s)"
  by (cases "rowid msg \<in> processed_messages s")
     (simp_all add: process_message_seen process_message_fresh(1))

text \<open>
  C3. In every state the loop can reach, also in the middle of a batch, no rowid occurs
  twice among the entries handed to the command handler or the backend, and each of them is
  in \<open>processed_messages\<close>. The loop body leaves the rowid of its entry in
  \<open>processed_messages\<close> whatever path it takes; an entry whose rowid is already there changes
  nothing; and for a new entry the rowid is inserted first, so that the loop-suppression
  check, the contact filter and the dispatch all run in a state that holds it.
\<close>

theorem dispatched_at_most_once:
  "distinct (dispatched (process_batch B A E i ms (main B A sr sdb cycles)))
   \<and> set (dispatched (process_batch B A E i ms (main B A sr sdb cycles)))
        \<subseteq> processed_messages (process_batch B A E i ms (main B A sr sdb cycles))
   \<and> rowid msg \<in> processed_messages (process_message B A e msg s)
   \<and> (rowid msg \<in> processed_messages s \<longrightarrow> process_message B A e msg s = s)
   \<and> (rowid msg \<notin> processed_messages s \<longrightarrow>
        process_message B A e msg s =
          (let s1 = s\<lparr>processed_messages := insert (rowid msg) (processed_messages s),
                      inspected := inspected s @ [rowid msg],
                      last_rowid := max (last_rowid s) (rowid msg)\<rparr>;
               s2 = snd (is_our_sent_message B (now_check e) (msg_text msg) s1)
           in if fst (is_our_sent_message B (now_check e) (msg_text msg) s1)
                 \<or> \<not> is_allowed B A (sender msg)
              then s2 else dispatch B e msg s2))"
proof (intro conjI impI)
  from main_dispatched [of B A sr sdb cycles]
  have d: "distinct (dispatched (main B A sr sdb cycles))"
    and p: "set (dispatched (main B A sr sdb cycles)) \<subseteq> processed_messages (main B A sr sdb cycles)"
    by simp_all
  from process_batch_dispatched [OF d p]
  show "distinct (dispatched (process_batch B A E i ms (main B A sr sdb cycles)))"
    and "set (dispatched (process_batch B A E i ms (main B A sr sdb cycles)))
        \<subseteq> processed_messages (process_batch B A E i ms (main B A sr sdb cycles))"
    by simp_all
  show "rowid msg \<in> processed_messages (process_message B A e msg s)"
    by (rule process_message_marks)
next
  assume "rowid msg \<in> processed_messages s"
  then show "process_message B A e msg s = s"
    by (rule process_message_seen)
next
  assume "rowid msg \<notin> processed_messages s"
  then show "process_message B A e msg s =
          (let s1 = s\<lparr>processed_messages := insert (rowid msg) (processed_messages s),
                      inspected := inspected s @ [rowid msg],
                      last_rowid := max (last_rowid s) (rowid msg)\<rparr>;
               s2 = snd (is_our_sent_message B (now_check e) (msg_text msg) s1)
           in if fst (is_our_sent_message B (now_check e) (msg_text msg) s1)
                 \<or> \<not> is_allowed B A (sender msg)
              then s2 else dispatch B e msg s2)"
    by (simp add: process_message_def Let_def split_beta)
qed

theorem dispatched_at_most_once_witness:
  "process_message ascii_builtins []
      \<lparr>now_check = 0, api = Response 200 (Some (ustr ''hi!'')), now_send = 1, transport = Completed\<rparr>
      \<lparr>rowid = 7, msg_text = (ustr ''hello''), is_from_me = 0, date = 0,
       sender = Some (ustr ''+14155551234''), chat_id = None\<rparr>
      (process_message ascii_builtins []
        \<lparr>now_check = 0, api = Response 200 (Some (ustr ''hi!'')), now_send = 1, transport = Completed\<rparr>
        \<lparr>rowid = 7, msg_text = (ustr ''hello''), is_from_me = 0, date = 0,
         sender = Some (ustr ''+14155551234''), chat_id = None\<rparr> (init_state 0))
   = process_message ascii_builtins []
        \<lparr>now_check = 0, api = Response 200 (Some (ustr ''hi!'')), now_send = 1, transport = Completed\<rparr>
        \<lparr>rowid = 7, msg_text = (ustr ''hello''), is_from_me = 0, date = 0,
         sender = Some (ustr ''+14155551234''), chat_id = None\<rparr> (init_state 0)
   \<and> dispatched (process_message ascii_builtins []
        \<lparr>now_check = 0, api = Response 200 (Some (ustr ''hi!'')), now_send = 1, transport = Completed\<rparr>
        \<lparr>rowid = 7, msg_text = (ustr ''hello''), is_from_me = 0, date = 0,
         sender = Some (ustr ''+14155551234''), chat_id = None\<rparr> (init_state 0)) = [7]"
proof -
  let ?B = ascii_builtins
  let ?e = "\<lparr>now_check = 0, api = Response 200 (Some (ustr ''hi!'')), now_send = 1, transport = Completed\<rparr>"
  let ?m = "\<lparr>rowid = 7, msg_text = (ustr ''hello''), is_from_me = 0, date = 0,
         sender = Some (ustr ''+14155551234''), chat_id = None\<rparr>"
  note t = dispatched_at_most_once [of ?B "[]" _ _ "[]" _ _ "[]" ?m ?e]
  have seen: "rowid ?m \<in> processed_messages (process_message ?B [] ?e ?m (init_state 0))"
    by (rule t [THEN conjunct2, THEN conjunct2, THEN conjunct1])
  from t [THEN conjunct2, THEN conjunct2, THEN conjunct2, THEN conjunct1, rule_format, OF seen]
  have a: "process_message ?B [] ?e ?m (process_message ?B [] ?e ?m (init_state 0))
           = process_message ?B [] ?e ?m (init_state 0)" .
  have fresh: "rowid ?m \<notin> processed_messages (init_state 0)"
    by (simp add: init_state_def)
  from t [THEN conjunct2, THEN conjunct2, THEN conjunct2, THEN conjunct2, rule_format, OF fresh]
  have b: "dispatched (process_message ?B [] ?e ?m (init_state 0)) = [7]"
    by (simp add: Let_def is_allowed_def dispatch_frame is_our_sent_message_frame
          is_our_sent_message_def clean_old_sent_messages_def init_state_def)
  from a b show ?thesis by (rule conjI)
qed

section \<open>Cursor reader: order and watermark\<close>

lemma process_batch_inspected:
  "\<exists>new. inspected (process_batch B A E i ms s) = inspected s @ new
        \<and> distinct new
        \<and> set new = set (map rowid ms) - processed_messages s
        \<and> (sorted (map rowid ms) \<longrightarrow> sorted new)
        \<and> processed_messages (process_batch B A E i ms s) = processed_messages s \<union> set (map rowid ms)
        \<and> last_rowid (process_batch B A E i ms s) = Max (insert (last_rowid s) (set new))"
proof (induction ms arbitrary: s i)
  case Nil
  show ?case by simp
next
  case (Cons m ms)
  let ?s1 = "process_message B A (E i) m s"
  from Cons.IH [of "Suc i" ?s1] obtain new where
    n1: "inspected (process_batch B A E (Suc i) ms ?s1) = inspected ?s1 @ new"
    and n2: "distinct new"
    and n3: "set new = set (map rowid ms) - processed_messages ?s1"
    and n4: "sorted (map rowid ms) \<longrightarrow> sorted new"
    and n5: "processed_messages (process_batch B A E (Suc i) ms ?s1)
               = processed_messages ?s1 \<union> set (map rowid ms)"
    and n6: "last_rowid (process_batch B A E (Suc i) ms ?s1) = Max (insert (last_rowid ?s1) (set new))"
    by blast
  show ?case
  proof (cases "rowid m \<in> processed_messages s")
    case True
    then have e: "?s1 = s"
      by (rule process_message_seen)
    from True n1 n2 n3 n4 n5 n6 have
      "inspected (process_batch B A E i (m # ms) s) = inspected s @ new
        \<and> distinct new
        \<and> set new = set (map rowid (m # ms)) - processed_messages s
        \<and> (sorted (map rowid (m # ms)) \<longrightarrow> sorted new)
        \<and> processed_messages (process_batch B A E i (m # ms) s)
            = processed_messages s \<union> set (map rowid (m # ms))
        \<and> last_rowid (process_batch B A E i (m # ms) s) = Max (insert (last_rowid s) (set new))"
      by (auto simp add: e)
    then show ?thesis ..
  next
    case False
    note f = process_message_fresh(1-3) [OF False, of B A "E i"]
    have fin: "finite (set new)"
      by simp
    have mx: "Max (insert (max (last_rowid s) (rowid m)) (set new))
              = Max (insert (last_rowid s) (set (rowid m # new)))"
    proof -
      have "Max (insert (last_rowid s) (set (rowid m # new)))
            = max (last_rowid s) (Max (insert (rowid m) (set new)))"
        by simp
      also have "\<dots> = Max (insert (max (last_rowid s) (rowid m)) (set new))"
        by (cases "set new = {}") (simp_all add: max.assoc)
      finally show ?thesis ..
    qed
    have pb: "process_batch B A E i (m # ms) s = process_batch B A E (Suc i) ms ?s1"
      by simp
    have c1: "inspected (process_batch B A E i (m # ms) s) = inspected s @ (rowid m # new)"
      unfolding pb n1 f(2) by simp
    have c2: "distinct (rowid m # new)"
      using n2 n3 f(1) by simp
    have c3: "set (rowid m # new) = set (map rowid (m # ms)) - processed_messages s"
      using False n3 f(1) by auto
    have c4: "sorted (map rowid (m # ms)) \<longrightarrow> sorted (rowid m # new)"
      using n3 n4 by auto
    have c5: "processed_messages (process_batch B A E i (m # ms) s)
            = processed_messages s \<union> set (map rowid (m # ms))"
      unfolding pb n5 f(1) by auto
    have c6: "last_rowid (process_batch B A E i (m # ms) s)
            = Max (insert (last_rowid s) (set (rowid m # new)))"
      unfolding pb n6 f(3) by (rule mx)
    from c1 c2 c3 c4 c5 c6 have
      "inspected (process_batch B A E i (m # ms) s) = inspected s @ (rowid m # new)
        \<and> distinct (rowid m # new)
        \<and> set (rowid m # new) = set (map rowid (m # ms)) - processed_messages s
        \<and> (sorted (map rowid (m # ms)) \<longrightarrow> sorted (rowid m # new))
        \<and> processed_messages (process_batch B A E i (m # ms) s)
            = processed_messages s \<union> set (map rowid (m # ms))
        \<and> last_rowid (process_batch B A E i (m # ms) s)
            = Max (insert (last_rowid s) (set (rowid m # new)))"
      by (intro conjI)
    then show ?thesis ..
  qed
qed

lemma rowid_to_message: "rowid (to_message row) = col_rowid row"
  by (simp add: to_message_def)

lemma get_recent_messages_sorted: "sorted (map rowid (get_recent_messages rd d since))"
proof (cases rd)
  case True
  have "sorted (take 50 (map col_rowid (sort_key col_rowid (filter (selected since) d))))"
    by (rule sorted_wrt_take) (rule sorted_sort_key)
  with True show ?thesis
    by (simp add: get_recent_messages_def comp_def rowid_to_message take_map)
next
  case False
  then show ?thesis
    by (simp add: get_recent_messages_def)
qed

lemma get_recent_messages_after:
  assumes "m \<in> set (get_recent_messages rd d since)"
  shows "since < rowid m"
proof -
  from assms obtain row where r: "row \<in> set (take 50 (sort_key col_rowid (filter (selected since) d)))"
    and m: "m = to_message row"
    by (auto simp add: get_recent_messages_def split: if_splits)
  from r have "row \<in> set (sort_key col_rowid (filter (selected since) d))"
    by (rule in_set_takeD)
  then have "selected since row"
    by simp
  then show ?thesis
    by (simp add: m rowid_to_message selected_def)
qed

lemma process_batch_watermark:
  assumes inv: "\<forall>r \<in> processed_messages s. r \<le> last_rowid s"
      and srt: "sorted (map rowid ms)"
      and aft: "\<forall>m \<in> set ms. last_rowid s < rowid m"
  shows "\<exists>new. inspected (process_batch B A E i ms s) = inspected s @ new
          \<and> sorted_wrt (<) new
          \<and> set new = set (map rowid ms)
          \<and> last_rowid (process_batch B A E i ms s)
               = (if ms = [] then last_rowid s else Max (set (map rowid ms)))
          \<and> (\<forall>r \<in> processed_messages (process_batch B A E i ms s).
                r \<le> last_rowid (process_batch B A E i ms s))"
proof -
  from process_batch_inspected [of B A E i ms s] obtain new where
    n1: "inspected (process_batch B A E i ms s) = inspected s @ new"
    and n2: "distinct new"
    and n3: "set new = set (map rowid ms) - processed_messages s"
    and n4: "sorted (map rowid ms) \<longrightarrow> sorted new"
    and n5: "processed_messages (process_batch B A E i ms s) = processed_messages s \<union> set (map rowid ms)"
    and n6: "last_rowid (process_batch B A E i ms s) = Max (insert (last_rowid s) (set new))"
    by blast
  from inv aft have disj: "set (map rowid ms) \<inter> processed_messages s = {}"
    by fastforce
  with n3 have s: "set new = set (map rowid ms)"
    by blast
  from n2 n4 srt have st: "sorted_wrt (<) new"
    by (simp add: strict_sorted_iff)
  have l: "last_rowid (process_batch B A E i ms s)
               = (if ms = [] then last_rowid s else Max (set (map rowid ms)))"
  proof (cases "ms = []")
    case True
    with n6 s show ?thesis by simp
  next
    case False
    then have ne: "set (map rowid ms) \<noteq> {}"
      by simp
    from aft have "\<forall>x \<in> set (map rowid ms). last_rowid s \<le> x"
      by auto
    from False obtain m where "m \<in> set ms"
      by (cases ms) auto
    with aft have "last_rowid s \<le> rowid m" and "rowid m \<in> set (map rowid ms)"
      by auto
    then have "last_rowid s \<le> Max (set (map rowid ms))"
      by (meson List.finite_set Max_ge order_trans)
    with ne have "Max (insert (last_rowid s) (set (map rowid ms))) = Max (set (map rowid ms))"
      by (simp add: max_def)
    with False n6 s show ?thesis by simp
  qed
  have i: "\<forall>r \<in> processed_messages (process_batch B A E i ms s).
                r \<le> last_rowid (process_batch B A E i ms s)"
  proof
    fix r
    assume "r \<in> processed_messages (process_batch B A E i ms s)"
    then have "r \<in> processed_messages s \<or> r \<in> set new"
      unfolding n5 s by blast
    then show "r \<le> last_rowid (process_batch B A E i ms s)"
    proof
      assume "r \<in> processed_messages s"
      with inv have "r \<le> last_rowid s" by blast
      also have "last_rowid s \<le> Max (insert (last_rowid s) (set new))"
        by simp
      finally show ?thesis unfolding n6 .
    next
      assume "r \<in> set new"
      then show ?thesis unfolding n6 by simp
    qed
  qed
  from n1 st s l i show ?thesis
    by blast
qed

lemma process_batch_mono: "last_rowid s \<le> last_rowid (process_batch B A E i ms s)"
proof -
  from process_batch_inspected [of B A E i ms s] obtain new where
    "last_rowid (process_batch B A E i ms s) = Max (insert (last_rowid s) (set new))"
    by blast
  then show ?thesis by simp
qed

lemma main_loop_mono: "last_rowid s \<le> last_rowid (main_loop B A cs s)"
proof (induction cs arbitrary: s)
  case Nil
  show ?case by simp
next
  case (Cons c cs)
  have "last_rowid s \<le> last_rowid (poll_cycle B A c s)"
    unfolding poll_cycle_def by (rule process_batch_mono)
  also have "\<dots> \<le> last_rowid (main_loop B A cs (poll_cycle B A c s))"
    by (rule Cons.IH)
  finally show ?case by simp
qed

lemma poll_cycle_watermark:
  assumes inv: "\<forall>r \<in> processed_messages s. r \<le> last_rowid s"
  shows "\<exists>new. inspected (poll_cycle B A c s) = inspected s @ new
          \<and> sorted_wrt (<) new
          \<and> set new = set (map rowid (get_recent_messages (readable c) (db c) (last_rowid s)))
          \<and> last_rowid (poll_cycle B A c s)
               = (if get_recent_messages (readable c) (db c) (last_rowid s) = [] then last_rowid s
                  else Max (set (map rowid (get_recent_messages (readable c) (db c) (last_rowid s)))))
          \<and> (\<forall>r \<in> processed_messages (poll_cycle B A c s). r \<le> last_rowid (poll_cycle B A c s))"
  unfolding poll_cycle_def
  by (rule process_batch_watermark [OF inv get_recent_messages_sorted])
     (simp add: get_recent_messages_after)

lemma main_loop_inv:
  "\<forall>r \<in> processed_messages s. r \<le> last_rowid s \<Longrightarrow>
   \<forall>r \<in> processed_messages (main_loop B A cs s). r \<le> last_rowid (main_loop B A cs s)"
proof (induction cs arbitrary: s)
  case Nil
  then show ?case by simp
next
  case (Cons c cs)
  from poll_cycle_watermark [OF Cons.prems, of B A c]
  have "\<forall>r \<in> processed_messages (poll_cycle B A c s). r \<le> last_rowid (poll_cycle B A c s)"
    by blast
  then show ?case
    by (simp add: Cons.IH)
qed

lemma main_inv:
  "\<forall>r \<in> processed_messages (main B A sr sdb cycles). r \<le> last_rowid (main B A sr sdb cycles)"
  unfolding main_def by (rule main_loop_inv) (simp add: init_state_def)

text \<open>
  What holds of the watermark whatever the reads do. In every polling cycle that starts in a
  state the loop can reach, the rowids inspected in the cycle are those of the fetched batch,
  in strictly ascending order, and after the cycle \<open>last_rowid\<close> is the greatest rowid of the
  batch (unchanged when the batch is empty). \<open>last_rowid\<close> never decreases over the run. At
  startup it is what \<open>get_latest_rowid\<close> returns: the greatest rowid of the store when the
  store is read and is not empty, and 0 when it is read and is empty.
\<close>

theorem watermark_follows_batch:
  "(let s = main B A sr sdb cycles;
        batch = get_recent_messages (readable c) (db c) (last_rowid s);
        s' = poll_cycle B A c s;
        new = drop (length (inspected s)) (inspected s')
    in inspected s' = inspected s @ new
     \<and> sorted_wrt (<) new
     \<and> set new = set (map rowid batch)
     \<and> last_rowid s' = (if batch = [] then last_rowid s else Max (set (map rowid batch))))
   \<and> last_rowid (main B A sr sdb cycles) \<le> last_rowid (main_loop B A later (main B A sr sdb cycles))
   \<and> last_rowid (main B A sr sdb []) = get_latest_rowid sr sdb
   \<and> (sr \<and> sdb \<noteq> [] \<longrightarrow> get_latest_rowid sr sdb = Max (set (map col_rowid sdb)))
   \<and> get_latest_rowid True [] = 0"
proof (intro conjI impI)
  let ?s = "main B A sr sdb cycles"
  from poll_cycle_watermark [OF main_inv [of B A sr sdb cycles], of B A c] obtain new where
    n1: "inspected (poll_cycle B A c ?s) = inspected ?s @ new"
    and n2: "sorted_wrt (<) new"
    and n3: "set new = set (map rowid (get_recent_messages (readable c) (db c) (last_rowid ?s)))"
    and n4: "last_rowid (poll_cycle B A c ?s)
               = (if get_recent_messages (readable c) (db c) (last_rowid ?s) = [] then last_rowid ?s
                  else Max (set (map rowid (get_recent_messages (readable c) (db c) (last_rowid ?s)))))"
    by blast
  from n1 have d: "drop (length (inspected ?s)) (inspected (poll_cycle B A c ?s)) = new"
    by simp
  from n1 n2 n3 n4 show "let s = main B A sr sdb cycles;
        batch = get_recent_messages (readable c) (db c) (last_rowid s);
        s' = poll_cycle B A c s;
        new = drop (length (inspected s)) (inspected s')
    in inspected s' = inspected s @ new
     \<and> sorted_wrt (<) new
     \<and> set new = set (map rowid batch)
     \<and> last_rowid s' = (if batch = [] then last_rowid s else Max (set (map rowid batch)))"
    unfolding Let_def d by (intro conjI)
  show "last_rowid (main B A sr sdb cycles) \<le> last_rowid (main_loop B A later (main B A sr sdb cycles))"
    by (rule main_loop_mono)
  show "last_rowid (main B A sr sdb []) = get_latest_rowid sr sdb"
    by (simp add: main_def init_state_def)
  show "get_latest_rowid True [] = 0"
    by (simp add: get_latest_rowid_def)
next
  assume "sr \<and> sdb \<noteq> []"
  then show "get_latest_rowid sr sdb = Max (set (map col_rowid sdb))"
    by (simp add: get_latest_rowid_def)
qed

theorem watermark_follows_batch_witness:
  "last_rowid (main ascii_builtins [] True
      [\<lparr>col_rowid = 3, col_text = Some (ustr ''old''), col_is_from_me = 0, col_date = 0,
         col_handle = Some (ustr ''+14155551234''), col_chat_identifier = Some (ustr ''+14155551234'')\<rparr>,
       \<lparr>col_rowid = 7, col_text = None, col_is_from_me = 1, col_date = 0,
         col_handle = None, col_chat_identifier = Some (ustr ''+14155551234'')\<rparr>,
       \<lparr>col_rowid = 5, col_text = Some (ustr ''older''), col_is_from_me = 0, col_date = 0,
         col_handle = Some (ustr ''+14155551234''), col_chat_identifier = Some (ustr ''+14155551234'')\<rparr>] []) = 7"
proof -
  let ?d = "[\<lparr>col_rowid = 3, col_text = Some (ustr ''old''), col_is_from_me = 0, col_date = 0,
         col_handle = Some (ustr ''+14155551234''), col_chat_identifier = Some (ustr ''+14155551234'')\<rparr>,
       \<lparr>col_rowid = 7, col_text = None, col_is_from_me = 1, col_date = 0,
         col_handle = None, col_chat_identifier = Some (ustr ''+14155551234'')\<rparr>,
       \<lparr>col_rowid = 5, col_text = Some (ustr ''older''), col_is_from_me = 0, col_date = 0,
         col_handle = Some (ustr ''+14155551234''), col_chat_identifier = Some (ustr ''+14155551234'')\<rparr>]"
  have h: "True \<and> ?d \<noteq> []"
    by simp
  note t = watermark_follows_batch [of ascii_builtins "[]" True ?d]
  from t [THEN conjunct2, THEN conjunct2, THEN conjunct2, THEN conjunct1, rule_format, OF h]
       t [THEN conjunct2, THEN conjunct2, THEN conjunct1]
  show ?thesis
    by simp
qed

text \<open>
  C4. The program does not start from the greatest rowid of the store when the read of
  \<open>get_latest_rowid\<close> raises, although its docstring and the comment of line 327 say that it
  starts from the latest message and does not process old ones. Here the store holds one
  inbound entry, with rowid 7. \<open>check_permissions\<close> reads the store, so \<open>main\<close> goes on; the
  read of line 328 raises, and the watermark starts at 0 instead of 7; the first polling
  cycle reads the store and hands entry 7, which is older than the start, to the backend.
\<close>

theorem startup_read_failure_replays:
  "startup_rowid True Opens False
      [\<lparr>col_rowid = 7, col_text = Some (ustr ''hello''), col_is_from_me = 0, col_date = 0,
         col_handle = Some (ustr ''+14155551234''),
         col_chat_identifier = Some (ustr ''+14155551234'')\<rparr>] = Some 0
   \<and> Max (set (map col_rowid
      [\<lparr>col_rowid = 7, col_text = Some (ustr ''hello''), col_is_from_me = 0, col_date = 0,
         col_handle = Some (ustr ''+14155551234''),
         col_chat_identifier = Some (ustr ''+14155551234'')\<rparr>])) = 7
   \<and> last_rowid (main ascii_builtins [] False
      [\<lparr>col_rowid = 7, col_text = Some (ustr ''hello''), col_is_from_me = 0, col_date = 0,
         col_handle = Some (ustr ''+14155551234''),
         col_chat_identifier = Some (ustr ''+14155551234'')\<rparr>] []) = 0
   \<and> dispatched (main ascii_builtins [] False
      [\<lparr>col_rowid = 7, col_text = Some (ustr ''hello''), col_is_from_me = 0, col_date = 0,
         col_handle = Some (ustr ''+14155551234''),
         col_chat_identifier = Some (ustr ''+14155551234'')\<rparr>]
      [\<lparr>readable = True,
        db = [\<lparr>col_rowid = 7, col_text = Some (ustr ''hello''), col_is_from_me = 0, col_date = 0,
         col_handle = Some (ustr ''+14155551234''),
         col_chat_identifier = Some (ustr ''+14155551234'')\<rparr>],
        envs = (\<lambda>i. \<lparr>now_check = 0, api = Response 200 (Some (ustr ''hi!'')), now_send = 1,
                      transport = Completed\<rparr>)\<rparr>]) = [7]"
proof (intro conjI)
  let ?row = "\<lparr>col_rowid = 7, col_text = Some (ustr ''hello''), col_is_from_me = 0, col_date = 0,
         col_handle = Some (ustr ''+14155551234''),
         col_chat_identifier = Some (ustr ''+14155551234'')\<rparr>"
  let ?m = "to_message ?row"
  show "startup_rowid True Opens False [?row] = Some 0"
    by (simp add: startup_rowid_def check_permissions_def get_latest_rowid_def)
  show "Max (set (map col_rowid [?row])) = 7"
    by simp
  show "last_rowid (main ascii_builtins [] False [?row] []) = 0"
    by (simp add: main_def init_state_def get_latest_rowid_def)
  have b: "get_recent_messages True [?row] 0 = [?m]"
    by (simp add: get_recent_messages_def selected_def ustr_def)
  have r: "rowid ?m = 7" "sender ?m = Some (ustr ''+14155551234'')" "msg_text ?m = ustr ''hello''"
    by (simp_all add: to_message_def ustr_def)
  show "dispatched (main ascii_builtins [] False [?row]
      [\<lparr>readable = True, db = [?row],
        envs = (\<lambda>i. \<lparr>now_check = 0, api = Response 200 (Some (ustr ''hi!'')), now_send = 1,
                      transport = Completed\<rparr>)\<rparr>]) = [7]"
    by (simp add: main_def get_latest_rowid_def poll_cycle_def b init_state_def
          process_message_def r Let_def split_beta is_allowed_def dispatch_frame
          is_our_sent_message_frame is_our_sent_message_def clean_old_sent_messages_def)
qed

section \<open>Backend failures\<close>










end
